theory Spec2Isabelle
  imports
    Complex_Main
    "HOL-Library.Char_ord"
    "HOL-Library.List_Lexorder"
    "HOL-Library.Product_Lexorder"
begin

unbundle bit_operations_syntax

section \<open>BIP39 seed-plate helper: a shallow embedding of main.py\<close>

text \<open>
  Python's unbounded integers are \<^typ>\<open>int\<close>. A Python \<open>str\<close> is a \<^typ>\<open>string\<close>;
  the characters are read as ASCII where the source consults character classes
  (\<open>strip\<close>, \<open>lower\<close>, \<open>splitlines\<close>), and the non-ASCII characters of the output
  literals are written as their UTF-8 bytes. Exceptions are values of \<open>exn\<close>; a function
  that may raise returns \<open>exn + 'a\<close>. What the program writes to standard output is a list
  of events, one per \<open>print\<close> call or \<open>input\<close> prompt.
\<close>

subsection \<open>Constants\<close>

definition POWERS_DESC :: "int list" where
  "POWERS_DESC = [2048, 1024, 512, 256, 128, 64, 32, 16, 8, 4, 2, 1]"



subsection \<open>Exceptions and output\<close>

datatype exn =
    ValueError string
  | AssertionError string
  | IndexError
  | EOFError
  | SystemExit_msg string
  | SystemExit_code int

datatype event = Print string | Prompt string

subsection \<open>Bit decomposer\<close>

text \<open>\<open>rows_to_punch\<close>: \<open>[p for p in POWERS_DESC if (idx1 & p) != 0]\<close>.\<close>

definition rows_to_punch :: "int \<Rightarrow> int list" where
  "rows_to_punch idx1 = filter (\<lambda>p. idx1 AND p \<noteq> 0) POWERS_DESC"

subsection \<open>Formatting\<close>

text \<open>Decimal rendering of an integer, as \<open>str(n)\<close> and \<open>f"{n}"\<close> give it.\<close>

definition digit_char :: "nat \<Rightarrow> char" where
  "digit_char d = char_of (48 + d)"

function str_nat :: "nat \<Rightarrow> string" where
  "str_nat n = (if n < 10 then [digit_char n] else str_nat (n div 10) @ [digit_char (n mod 10)])"
  by pat_completeness auto
termination
  by (relation "measure id") auto

definition str_int :: "int \<Rightarrow> string" where
  "str_int i = (if i < 0 then CHR ''-'' # str_nat (nat (- i)) else str_nat (nat i))"

text \<open>\<open>f"{x:>w}"\<close> pads on the left with spaces, \<open>f"{x:<w}"\<close> on the right, \<open>f"{n:02d}"\<close>
  on the left with zeros (after the sign).\<close>

definition rjust :: "nat \<Rightarrow> string \<Rightarrow> string" where
  "rjust w s = replicate (w - length s) CHR '' '' @ s"



text \<open>\<open>sep.join(xs)\<close>.\<close>

fun join :: "string \<Rightarrow> string list \<Rightarrow> string" where
  "join sep [] = []"
| "join sep [x] = x"
| "join sep (x # y # ys) = x @ sep @ join sep (y # ys)"


subsection \<open>Self-check\<close>



subsection \<open>Strings\<close>








subsection \<open>Wordlist loader\<close>


subsection \<open>Word resolver\<close>

text \<open>\<open>list.index(x)\<close>: the position of the first element equal to \<open>x\<close>; \<open>None\<close> stands
  for the \<open>ValueError\<close> that the caller catches.\<close>

fun list_index :: "'a list \<Rightarrow> 'a \<Rightarrow> nat option" where
  "list_index [] x = None"
| "list_index (y # ys) x = (if y = x then Some 0 else map_option Suc (list_index ys x))"

text \<open>
  \<open>difflib.get_close_matches(word, possibilities, n, cutoff)\<close> is library code: it scores
  every possibility \<open>x\<close> with \<open>SequenceMatcher.ratio()\<close>, keeps those scoring at least
  \<open>cutoff\<close> as pairs \<open>(score, x)\<close>, takes the \<open>n\<close> largest pairs with \<open>heapq.nlargest\<close>
  (that is \<open>sorted(result, reverse=True)[:n]\<close>) and strips the scores. The similarity
  measure is the parameter \<open>ratio\<close>, so nothing proved below depends on it. The argument
  checks of the library (\<open>n > 0\<close>, \<open>0 \<le> cutoff \<le> 1\<close>) pass at the one call of the source.
\<close>

definition nlargest :: "nat \<Rightarrow> ('a :: linorder) list \<Rightarrow> 'a list" where
  "nlargest n xs = take n (rev (sort xs))"

definition get_close_matches ::
  "(string \<Rightarrow> string \<Rightarrow> rat) \<Rightarrow> string \<Rightarrow> string list \<Rightarrow> nat \<Rightarrow> rat \<Rightarrow> string list" where
  "get_close_matches ratio word possibilities n cutoff =
     map snd (nlargest n (map (\<lambda>x. (ratio x word, x))
                            (filter (\<lambda>x. ratio x word \<ge> cutoff) possibilities)))"

definition one_based_index ::
  "(string \<Rightarrow> string \<Rightarrow> rat) \<Rightarrow> string \<Rightarrow> string list \<Rightarrow> exn + int" where
  "one_based_index ratio word wordlist =
     (case list_index wordlist word of
        Some k \<Rightarrow> Inr (int k + 1)
      | None \<Rightarrow>
          (let hint = get_close_matches ratio word wordlist 3 (3 / 4);
               msg = ''Word '' @ [CHR 0x27] @ word @ [CHR 0x27] @ '' not in BIP39 list.''
           in Inl (ValueError (if hint \<noteq> [] then msg @ '' Did you mean: '' @ join '', '' hint @ ''?''
                               else msg))))"

subsection \<open>Plate renderer\<close>

text \<open>The markers and dashes of the output, as UTF-8: U+25CF, U+00B7, U+2014, U+2013, U+2192.\<close>

definition BLACK_CIRCLE :: string where
  "BLACK_CIRCLE = [CHR 0xE2, CHR 0x97, CHR 0x8F]"

definition MIDDLE_DOT :: string where
  "MIDDLE_DOT = [CHR 0xC2, CHR 0xB7]"

definition EM_DASH :: string where
  "EM_DASH = [CHR 0xE2, CHR 0x80, CHR 0x94]"

definition EN_DASH :: string where
  "EN_DASH = [CHR 0xE2, CHR 0x80, CHR 0x93]"


definition marks :: "int \<Rightarrow> string" where
  "marks idx1 =
     join '' '' (map (\<lambda>p. if idx1 AND p \<noteq> 0 then ''  '' @ BLACK_CIRCLE @ '' ''
                           else ''  '' @ MIDDLE_DOT @ '' '') POWERS_DESC)"

text \<open>The loop over \<open>enumerate(block_indices, start=start_word_no)\<close>.\<close>

fun render_rows :: "int \<Rightarrow> int list \<Rightarrow> event list" where
  "render_rows r [] = []"
| "render_rows r (idx1 # rest) =
     Print (rjust 3 (str_int r) @ '' |'' @ marks idx1 @ ''  ('' @ str_int idx1 @ '')'')
       # render_rows (r + 1) rest"

definition render_plate_rotated :: "int list \<Rightarrow> int \<Rightarrow> int \<Rightarrow> event list" where
  "render_plate_rotated block_indices plate_no start_word_no =
     [Print ([CHR 0x0A] @ ''=== PLATE '' @ str_int plate_no @ '' '' @ EM_DASH @ '' words ''
              @ str_int start_word_no @ EN_DASH
              @ str_int (start_word_no + int (length block_indices) - 1) @ '' ===''),
      Print (''     '' @ join '' '' (map (\<lambda>p. rjust 4 (str_int p)) POWERS_DESC)),
      Print (''     '' @ join '' '' (map (\<lambda>_. ''----'') POWERS_DESC))]
     @ render_rows start_word_no block_indices"

subsection \<open>Session loop\<close>

text \<open>The two lists \<open>words\<close> and \<open>indices\<close> of \<open>main\<close>, and what has been written so far.\<close>

record session =
  words :: "string list"
  indices :: "int list"
  out :: "event list"

definition emit :: "event \<Rightarrow> session \<Rightarrow> session" where
  "emit e st = st\<lparr>out := out st @ [e]\<rparr>"




subsection \<open>The program\<close>






section \<open>Bit decomposition\<close>

lemma and_pow_bit: "(i AND (2::int) ^ n \<noteq> 0) = bit i n"
  by (simp add: and_exp_eq_0_iff_not_bit)

lemma POWERS_DESC_pow: "POWERS_DESC = map (\<lambda>k. 2 ^ k) (rev [0..<12])"
  by (simp add: POWERS_DESC_def upt_rec)

lemma set_POWERS_DESC: "set POWERS_DESC = (\<lambda>k. (2::int) ^ k) ` {0..<12}"
  by (simp add: POWERS_DESC_pow)

lemma POWERS_DESC_sorted: "sorted_wrt (>) POWERS_DESC"
  by (simp add: POWERS_DESC_def)

lemma filter_sum_bits:
  "sum_list (filter (\<lambda>p. i AND p \<noteq> 0) (map (\<lambda>k. (2::int) ^ k) ks))
     = (\<Sum>k\<leftarrow>ks. of_bool (bit i k) * 2 ^ k)"
  by (induction ks) (simp_all add: and_pow_bit)

text \<open>The selected weights add up to the low twelve bits of the index.\<close>

lemma bit_sum: "sum_list (filter (\<lambda>p. i AND p \<noteq> 0) POWERS_DESC) = take_bit 12 i"
proof -
  have "sum_list (filter (\<lambda>p. i AND p \<noteq> 0) POWERS_DESC)
          = (\<Sum>k\<leftarrow>rev [0..<12]. of_bool (bit i k) * 2 ^ k)"
    unfolding POWERS_DESC_pow by (rule filter_sum_bits)
  also have "\<dots> = (\<Sum>k\<leftarrow>[0..<12]. of_bool (bit i k) * 2 ^ k)"
    by (simp only: rev_map [symmetric] sum_list_rev)
  also have "\<dots> = (\<Sum>k = 0..<12. of_bool (bit i k) * 2 ^ k)"
    by (simp only: sum_list_distinct_conv_sum_set distinct_upt set_upt)
  also have "\<dots> = take_bit 12 i"
    by (simp only: take_bit_sum push_bit_eq_mult mult.commute)
  finally show ?thesis .
qed

lemma bit_sum_in_range:
  "0 \<le> i \<Longrightarrow> i < 4096 \<Longrightarrow> sum_list (filter (\<lambda>p. i AND p \<noteq> 0) POWERS_DESC) = i"
  by (simp add: bit_sum take_bit_int_eq_self)

lemma rows_sorted: "sorted_wrt (>) (rows_to_punch i)"
  unfolding rows_to_punch_def by (rule sorted_wrt_filter [OF POWERS_DESC_sorted])

lemma rows_distinct: "distinct (rows_to_punch i)"
  unfolding rows_to_punch_def using POWERS_DESC_sorted
  by (intro distinct_filter) (simp add: POWERS_DESC_def)

lemma set_rows_to_punch:
  "set (rows_to_punch i) = (\<lambda>k. (2::int) ^ k) ` {k. k < 12 \<and> bit i k}"
  by (auto simp: rows_to_punch_def set_POWERS_DESC and_exp_eq_0_iff_not_bit)

lemma bit_sum_pow_subset:
  assumes "K \<subseteq> {0..<n}"
  shows "bit (\<Sum>k\<in>K. (2::int) ^ k) m = (m \<in> K)"
proof -
  have "(\<Sum>k\<in>K. (2::int) ^ k) = (\<Sum>k = 0..<n. of_bool (k \<in> K) * 2 ^ k)"
  proof -
    have "(\<Sum>k = 0..<n. of_bool (k \<in> K) * (2::int) ^ k) = (\<Sum>k\<in>{0..<n} \<inter> K. 2 ^ k)"
      by (simp add: sum.inter_restrict of_bool_def if_distrib [of "\<lambda>b. b * _"] cong: if_cong)
    also have "{0..<n} \<inter> K = K" using assms by auto
    finally show ?thesis by simp
  qed
  also have "\<dots> = horner_sum of_bool 2 (map (\<lambda>k. k \<in> K) [0..<n])"
    by (simp add: horner_sum_eq_sum)
  finally have "bit (\<Sum>k\<in>K. (2::int) ^ k) m
                  = bit (horner_sum of_bool (2::int) (map (\<lambda>k. k \<in> K) [0..<n])) m"
    by simp
  also have "\<dots> = (m < n \<and> m \<in> K)"
    by (auto simp add: bit_horner_sum_bit_iff)
  also have "\<dots> = (m \<in> K)" using assms by auto
  finally show ?thesis .
qed

text \<open>A set of weights is determined by its sum: the binary representation is unique.\<close>

lemma rows_unique:
  assumes "S \<subseteq> set POWERS_DESC" and "sum id S = i"
  shows "S = set (rows_to_punch i)"
proof -
  define K where "K = {k. k < 12 \<and> (2::int) ^ k \<in> S}"
  have K: "K \<subseteq> {0..<12}" by (auto simp: K_def)
  have S: "S = (\<lambda>k. (2::int) ^ k) ` K"
    using assms(1) by (auto simp: K_def set_POWERS_DESC)
  have inj: "inj_on (\<lambda>k. (2::int) ^ k) K"
    by (rule inj_onI) simp
  have "i = (\<Sum>k\<in>K. (2::int) ^ k)"
    using assms(2) by (simp add: S sum.reindex [OF inj])
  then have "bit i m = (m \<in> K)" for m
    using bit_sum_pow_subset [OF K] by simp
  then have "{k. k < 12 \<and> bit i k} = K"
    using K by auto
  then show ?thesis by (simp add: set_rows_to_punch S)
qed

lemma rows_to_punch_3: "rows_to_punch 3 = [2, 1]"
  by (simp add: rows_to_punch_def POWERS_DESC_def)

lemma rows_to_punch_2048: "rows_to_punch 2048 = [2048]"
  by (simp add: rows_to_punch_def POWERS_DESC_def)

lemma rows_to_punch_2047: "rows_to_punch 2047 = [1024, 512, 256, 128, 64, 32, 16, 8, 4, 2, 1]"
  by (simp add: rows_to_punch_def POWERS_DESC_def)

text \<open>
  C1. For every index from 1 to 2048, \<open>rows_to_punch\<close> returns the weights among
  2048, 1024, ..., 1 whose bitwise AND with the index is non-zero, in descending order; the
  weights returned add up to the index, and every set of weights with that sum is the set
  returned. The three worked examples of the specification are part of the statement.
\<close>

theorem rows_to_punch_decomposition:
  assumes "1 \<le> i" and "i \<le> 2048"
  shows "rows_to_punch i
           = filter (\<lambda>p. i AND p \<noteq> 0) [2048, 1024, 512, 256, 128, 64, 32, 16, 8, 4, 2, 1]
       \<and> sorted_wrt (>) (rows_to_punch i)
       \<and> sum_list (rows_to_punch i) = i
       \<and> set (rows_to_punch i) \<subseteq> {2048, 1024, 512, 256, 128, 64, 32, 16, 8, 4, 2, 1}
       \<and> sum id (set (rows_to_punch i)) = i
       \<and> (\<forall>S. S \<subseteq> {2048, 1024, 512, 256, 128, 64, 32, 16, 8, 4, 2, 1} \<and> sum id S = i
              \<longrightarrow> S = set (rows_to_punch i))
       \<and> rows_to_punch 3 = [2, 1]
       \<and> rows_to_punch 2048 = [2048]
       \<and> rows_to_punch 2047 = [1024, 512, 256, 128, 64, 32, 16, 8, 4, 2, 1]"
proof -
  have lit: "{2048, 1024, 512, 256, 128, 64, 32, 16, 8, 4, 2, 1} = set POWERS_DESC"
    by (simp add: POWERS_DESC_def)
  have a: "rows_to_punch i
             = filter (\<lambda>p. i AND p \<noteq> 0) [2048, 1024, 512, 256, 128, 64, 32, 16, 8, 4, 2, 1]"
    by (simp only: rows_to_punch_def POWERS_DESC_def)
  have b: "sum_list (rows_to_punch i) = i"
    unfolding rows_to_punch_def using assms by (intro bit_sum_in_range) simp_all
  have c: "set (rows_to_punch i) \<subseteq> set POWERS_DESC"
    by (simp add: rows_to_punch_def)
  have d: "sum id (set (rows_to_punch i)) = i"
    using b sum_list_distinct_conv_sum_set [OF rows_distinct [of i], of id] by simp
  have e: "\<forall>S. S \<subseteq> set POWERS_DESC \<and> sum id S = i \<longrightarrow> S = set (rows_to_punch i)"
    using rows_unique by blast
  show ?thesis
    unfolding lit
    by (intro conjI a b c d e rows_sorted rows_to_punch_3 rows_to_punch_2048 rows_to_punch_2047)
qed

theorem rows_to_punch_decomposition_witness:
  "(1::int) \<le> 5 \<and> (5::int) \<le> 2048
   \<and> rows_to_punch 5 = [4, 1]
   \<and> sum_list (rows_to_punch 5) = 5
   \<and> {4, 1} \<subseteq> {2048, 1024, 512, 256, 128, 64, 32, 16, 8, 4, 2, (1::int)}
   \<and> sum id {4, 1 :: int} = 5
   \<and> {4, 1} = set (rows_to_punch 5)"
  using rows_to_punch_decomposition [of 5] by simp

section \<open>Self-check and diagnostic mode\<close>





section \<open>Word resolver\<close>

lemma list_index_None: "list_index xs x = None \<longleftrightarrow> x \<notin> set xs"
  by (induction xs) auto

lemma list_index_Some:
  "list_index xs x = Some k \<longleftrightarrow> k < length xs \<and> xs ! k = x \<and> (\<forall>j<k. xs ! j \<noteq> x)"
proof (induction xs arbitrary: k)
  case Nil
  then show ?case by simp
next
  case (Cons y ys)
  show ?case
  proof (cases "y = x")
    case True
    then show ?thesis by (cases k) auto
  next
    case False
    show ?thesis
    proof (cases k)
      case 0
      with False show ?thesis by auto
    next
      case (Suc m)
      have "(\<forall>j<Suc m. (y # ys) ! j \<noteq> x) \<longleftrightarrow> (\<forall>j<m. ys ! j \<noteq> x)"
        using False by (auto simp: less_Suc_eq_0_disj)
      with False Suc Cons.IH [of m] show ?thesis by auto
    qed
  qed
qed





text \<open>
  C3. A word that occurs in the word list resolves to the 1-based position of its first
  occurrence. The result is a function of the word and the list alone: it does not depend on
  the similarity measure, so resolving the same word again gives the same position.
\<close>

theorem resolve_present:
  assumes "w \<in> set wordlist"
  shows "\<exists>k. one_based_index ratio w wordlist = Inr (int k + 1)
           \<and> k < length wordlist \<and> wordlist ! k = w \<and> (\<forall>j<k. wordlist ! j \<noteq> w)
           \<and> one_based_index ratio' w wordlist = one_based_index ratio w wordlist"
proof -
  from assms obtain k where k: "list_index wordlist w = Some k"
    using list_index_None [of wordlist w] by (cases "list_index wordlist w") auto
  then have "k < length wordlist \<and> wordlist ! k = w \<and> (\<forall>j<k. wordlist ! j \<noteq> w)"
    by (simp add: list_index_Some)
  moreover have "one_based_index r w wordlist = Inr (int k + 1)" for r
    using k by (simp add: one_based_index_def)
  ultimately show ?thesis by auto
qed

theorem resolve_present_witness:
  "''zoo'' \<in> set [''abandon'', ''zoo'', ''zoo'']
   \<and> one_based_index (\<lambda>x w. 0) ''zoo'' [''abandon'', ''zoo'', ''zoo''] = Inr 2
   \<and> one_based_index (\<lambda>x w. 1) ''zoo'' [''abandon'', ''zoo'', ''zoo''] = Inr 2"
  using resolve_present [of "''zoo''" "[''abandon'', ''zoo'', ''zoo'']" "\<lambda>x w. 0" "\<lambda>x w. 1"]
  by (simp add: one_based_index_def)

section \<open>Session loop\<close>

lemma words_emit [simp]: "words (emit e st) = words st"
  and indices_emit [simp]: "indices (emit e st) = indices st"
  and out_emit [simp]: "out (emit e st) = out st @ [e]"
  by (simp_all add: emit_def)











section \<open>Normalisation of input lines\<close>









section \<open>Claims about the resolver and the session\<close>








section \<open>Claims about input normalisation\<close>






section \<open>Wordlist loader\<close>

























section \<open>Plate renderer\<close>

lemma length_render_rows: "length (render_rows r block) = length block"
  by (induction block arbitrary: r) simp_all

lemma nth_render_rows:
  "k < length block \<Longrightarrow>
     render_rows r block ! k =
       Print (rjust 3 (str_int (r + int k)) @ '' |'' @ marks (block ! k)
              @ ''  ('' @ str_int (block ! k) @ '')'')"
proof (induction block arbitrary: r k)
  case Nil
  then show ?case by simp
next
  case (Cons idx1 rest)
  show ?case
  proof (cases k)
    case 0
    then show ?thesis by simp
  next
    case (Suc m)
    with Cons.prems have "m < length rest" by simp
    from Cons.IH [OF this, of "r + 1"] Suc show ?thesis by (simp add: add.assoc)
  qed
qed

lemma in_rows_to_punch:
  "p \<in> set POWERS_DESC \<Longrightarrow> (p \<in> set (rows_to_punch idx1)) = (idx1 AND p \<noteq> 0)"
  by (simp add: rows_to_punch_def)

lemma marks_rows_to_punch:
  "marks idx1 =
     join '' '' (map (\<lambda>p. if p \<in> set (rows_to_punch idx1) then ''  '' @ BLACK_CIRCLE @ '' ''
                           else ''  '' @ MIDDLE_DOT @ '' '')
                   [2048, 1024, 512, 256, 128, 64, 32, 16, 8, 4, 2, 1])"
proof -
  have "map (\<lambda>p. if idx1 AND p \<noteq> 0 then ''  '' @ BLACK_CIRCLE @ '' '' else ''  '' @ MIDDLE_DOT @ '' '')
          POWERS_DESC
      = map (\<lambda>p. if p \<in> set (rows_to_punch idx1) then ''  '' @ BLACK_CIRCLE @ '' ''
                  else ''  '' @ MIDDLE_DOT @ '' '') POWERS_DESC"
    by (rule map_cong) (simp_all only: in_rows_to_punch)
  then show ?thesis
    unfolding marks_def by (simp only: POWERS_DESC_def)
qed

lemma header_row:
  "''     '' @ join '' '' (map (\<lambda>p. rjust 4 (str_int p)) POWERS_DESC)
     = ''     2048 1024  512  256  128   64   32   16    8    4    2    1''"
  by code_simp

lemma dashes_row:
  "''     '' @ join '' '' (map (\<lambda>_. ''----'') POWERS_DESC)
     = ''     ---- ---- ---- ---- ---- ---- ---- ---- ---- ---- ---- ----''"
  by code_simp

text \<open>
  C8. For every block, the renderer writes the title, the header row with the twelve weights
  from 2048 down to 1, a row of dashes, and then one row per index, in block order. The row
  of the \<open>k\<close>-th index carries the word number \<open>start_word_no + k\<close>, twelve markers, the one
  under weight \<open>p\<close> filled exactly when \<open>p\<close> is among \<open>rows_to_punch\<close> of the index, and the
  index itself. The output is a function of the three arguments alone.
\<close>

theorem render_plate_rotated_grid:
  "length (render_plate_rotated block plate_no start_word_no) = 3 + length block
   \<and> render_plate_rotated block plate_no start_word_no ! 0
       = Print ([CHR 0x0A] @ ''=== PLATE '' @ str_int plate_no @ '' '' @ EM_DASH @ '' words ''
                @ str_int start_word_no @ EN_DASH
                @ str_int (start_word_no + int (length block) - 1) @ '' ==='')
   \<and> render_plate_rotated block plate_no start_word_no ! 1
       = Print ''     2048 1024  512  256  128   64   32   16    8    4    2    1''
   \<and> render_plate_rotated block plate_no start_word_no ! 2
       = Print ''     ---- ---- ---- ---- ---- ---- ---- ---- ---- ---- ---- ----''
   \<and> (\<forall>k<length block.
         render_plate_rotated block plate_no start_word_no ! (3 + k)
           = Print (rjust 3 (str_int (start_word_no + int k)) @ '' |''
                    @ join '' '' (map (\<lambda>p. if p \<in> set (rows_to_punch (block ! k))
                                              then ''  '' @ BLACK_CIRCLE @ '' ''
                                              else ''  '' @ MIDDLE_DOT @ '' '')
                                    [2048, 1024, 512, 256, 128, 64, 32, 16, 8, 4, 2, 1])
                    @ ''  ('' @ str_int (block ! k) @ '')''))"
proof -
  define title where "title = Print ([CHR 0x0A] @ ''=== PLATE '' @ str_int plate_no @ '' '' @ EM_DASH
      @ '' words '' @ str_int start_word_no @ EN_DASH
      @ str_int (start_word_no + int (length block) - 1) @ '' ==='')"
  have r: "render_plate_rotated block plate_no start_word_no =
      [title,
       Print ''     2048 1024  512  256  128   64   32   16    8    4    2    1'',
       Print ''     ---- ---- ---- ---- ---- ---- ---- ---- ---- ---- ---- ----'']
      @ render_rows start_word_no block"
    unfolding render_plate_rotated_def title_def header_row dashes_row ..
  have rows: "render_plate_rotated block plate_no start_word_no ! (3 + k)
      = render_rows start_word_no block ! k" for k
    unfolding r by (simp add: nth_append)
  show ?thesis
    unfolding rows
    by (simp add: r length_render_rows nth_render_rows marks_rows_to_punch title_def)
qed

lemma render_example_index: "str_int 2048 = ''2048''" "rjust 3 (str_int 2) = ''  2''"
  by code_simp+

lemma render_example_marks:
  "map (\<lambda>p. if p \<in> set (rows_to_punch 2048) then ''  '' @ BLACK_CIRCLE @ '' ''
             else ''  '' @ MIDDLE_DOT @ '' '')
       [2048, 1024, 512, 256, 128, 64, 32, 16, 8, 4, 2, 1]
   = map (\<lambda>p. if p = (2048::int) then ''  '' @ BLACK_CIRCLE @ '' '' else ''  '' @ MIDDLE_DOT @ '' '')
       [2048, 1024, 512, 256, 128, 64, 32, 16, 8, 4, 2, 1]"
  unfolding rows_to_punch_2048 by simp

theorem render_plate_rotated_grid_witness:
  "(1::nat) < length [3, 2048 :: int]
   \<and> length (render_plate_rotated [3, 2048] 1 1) = 5
   \<and> render_plate_rotated [3, 2048] 1 1 ! (3 + 1)
       = Print (''  2 |''
                @ join '' '' (map (\<lambda>p. if p = (2048::int) then ''  '' @ BLACK_CIRCLE @ '' ''
                                        else ''  '' @ MIDDLE_DOT @ '' '')
                                [2048, 1024, 512, 256, 128, 64, 32, 16, 8, 4, 2, 1])
                @ ''  (2048)'')"
proof -
  note r = render_plate_rotated_grid [of "[3, 2048]" 1 1]
  have k: "(1::nat) < length [3, 2048 :: int]" by simp
  have n: "[3, 2048 :: int] ! 1 = 2048" "(1::int) + int 1 = 2" by simp_all
  from r have len: "length (render_plate_rotated [3, 2048] 1 1) = 5" by simp
  from r k have "render_plate_rotated [3, 2048] 1 1 ! (3 + 1)
      = Print (rjust 3 (str_int (1 + int 1)) @ '' |''
               @ join '' '' (map (\<lambda>p. if p \<in> set (rows_to_punch ([3, 2048] ! 1))
                                         then ''  '' @ BLACK_CIRCLE @ '' ''
                                         else ''  '' @ MIDDLE_DOT @ '' '')
                               [2048, 1024, 512, 256, 128, 64, 32, 16, 8, 4, 2, 1])
               @ ''  ('' @ str_int ([3, 2048] ! 1) @ '')'')"
    by blast
  then have row: "render_plate_rotated [3, 2048] 1 1 ! (3 + 1)
       = Print (''  2 |''
                @ join '' '' (map (\<lambda>p. if p = (2048::int) then ''  '' @ BLACK_CIRCLE @ '' ''
                                        else ''  '' @ MIDDLE_DOT @ '' '')
                                [2048, 1024, 512, 256, 128, 64, 32, 16, 8, 4, 2, 1])
                @ ''  (2048)'')"
    unfolding n render_example_marks render_example_index by simp
  from k len row show ?thesis by (intro conjI)
qed

section \<open>The whole run\<close>








end
